theory Spec2Isabelle
  imports Main "HOL-Library.Multiset"
begin

section \<open>Python values and their canonical form\<close>

text \<open>
  Parameter values are scalars (\<open>None\<close>, integers, strings) or arbitrarily nested lists and
  tuples.  HOL equality on \<open>pyval\<close> is Python's \<open>==\<close> on these values: a list never
  equals a tuple, sequences are equal when they are element-wise equal.  Booleans and
  floats, which Python identifies with integers of the same value, are not part of the model.
\<close>

datatype pyval = PNone | PInt int | PStr string | PList "pyval list" | PTuple "pyval list"

text \<open>
  \<^verbatim>\<open>def list_to_tuple(obj):
    return tuple(list_to_tuple(x) for x in obj) if type(obj) is list else obj\<close>
\<close>

fun list_to_tuple :: "pyval \<Rightarrow> pyval" where
  "list_to_tuple (PList xs) = PTuple (map list_to_tuple xs)"
| "list_to_tuple v = v"

text \<open>
  \<^verbatim>\<open>def tuple_to_list(obj):
    return list(tuple_to_list(x) for x in obj) if type(obj) is tuple else obj\<close>
\<close>

fun tuple_to_list :: "pyval \<Rightarrow> pyval" where
  "tuple_to_list (PTuple xs) = PList (map tuple_to_list xs)"
| "tuple_to_list v = v"

text \<open>
  Python's \<open>hash\<close>: a list is unhashable, a tuple is hashable when all its elements are,
  scalars are hashable.  Putting an unhashable object into a \<open>set\<close> raises \<open>TypeError\<close>.
\<close>

fun hashable :: "pyval \<Rightarrow> bool" where
  "hashable (PList xs) = False"
| "hashable (PTuple xs) = list_all hashable xs"
| "hashable v = True"

text \<open>Values built from scalars and lists only.\<close>

fun tuple_free :: "pyval \<Rightarrow> bool" where
  "tuple_free (PTuple xs) = False"
| "tuple_free (PList xs) = list_all tuple_free xs"
| "tuple_free v = True"



section \<open>Errors, parameters, runs and sweep configurations\<close>

datatype error = ValueError string | KeyError string | TypeError | ValidationError | IndexError

text \<open>
  Modelled from the spec: the classes \<open>HyperParameter\<close> and \<open>HyperParameterSet\<close>
  (module \<open>params\<close>) are not among the sources.  Following the spec's ParameterSpec, a
  parameter has a name, a kind (\<open>p.type\<close>: categorical, constant, or any other kind, which
  grid search rejects), the candidate values of a categorical parameter
  (\<open>p.config["values"]\<close>, a Python list) and the bound value \<open>p.value\<close> (the fixed value
  of a constant; for a categorical parameter the value chosen at output).
\<close>

datatype param_type = CATEGORICAL | CONSTANT | OTHER_TYPE

record hyper_parameter =
  name :: string
  ptype :: param_type
  pvalues :: "pyval list"
  pvalue :: pyval

text \<open>
  Modelled from the spec: \<open>SweepRun\<close> and \<open>Run\<close> (module \<open>run\<close>) are not among the
  sources; the core reads and writes their \<open>config\<close> only, a dictionary from parameter
  names to values.  The entry \<open>{"value": v}\<close> of a \<open>SweepRun\<close> is modelled by \<open>v\<close>.
\<close>

record sweep_run =
  config :: "string \<rightharpoonup> pyval"

text \<open>
  Modelled from the spec: \<open>HyperParameterSet.from_config\<close> is not among the sources; the
  \<open>parameters\<close> section of the search-space description is modelled by the list of
  parameters it yields.  The description itself is a dictionary in which the keys
  \<open>method\<close> and \<open>parameters\<close> may each be absent.
\<close>

record sweep_config =
  "method" :: "string option"
  parameters :: "hyper_parameter list option"

text \<open>
  Modelled from the spec: the schema validator behind \<open>SweepConfig(...)\<close> is not among the
  sources; \<open>schema_ok\<close> says whether it accepts a description (it raises
  \<open>ValidationError\<close> otherwise and leaves the content unchanged).  The two other fields
  are what the code takes from the Python runtime: \<open>set_order\<close> is the order in which a
  set is iterated, given here the elements as a duplicate-free list; \<open>shuffle\<close> is
  \<open>random.shuffle\<close> on the state of the global generator at the time of the call.
\<close>

record py_env =
  schema_ok :: "sweep_config \<Rightarrow> bool"
  set_order :: "pyval list list \<Rightarrow> pyval list list"
  shuffle :: "pyval list list \<Rightarrow> pyval list list"

section \<open>Shared steps of the two implementations\<close>

text \<open>
  The message of the error raised for a parameter that is neither categorical nor constant:
  \<^verbatim>\<open>"Parameter %s is a disallowed type with grid search. Grid search requires all parameters to be categorical or constant" % p.name\<close>
\<close>

definition disallowed_message :: "string \<Rightarrow> string" where
  "disallowed_message nm =
     ''Parameter '' @ nm @
     '' is a disallowed type with grid search. Grid search requires all parameters to be categorical or constant''"

text \<open>
  The loop \<open>for p in params: if p.type != CATEGORICAL and p.type != CONSTANT: raise ...\<close>;
  \<open>None\<close> when it ends without raising.
\<close>

fun check_params :: "hyper_parameter list \<Rightarrow> error option" where
  "check_params [] = None"
| "check_params (p # ps) =
     (if ptype p \<noteq> CATEGORICAL \<and> ptype p \<noteq> CONSTANT
      then Some (ValueError (disallowed_message (name p)))
      else check_params ps)"

text \<open>Python's \<open>dict(pairs)\<close>: a later pair overrides an earlier one with the same key.\<close>

definition dict_of :: "(string \<times> pyval) list \<Rightarrow> (string \<rightharpoonup> pyval)" where
  "dict_of kvs = map_of (rev kvs)"

text \<open>
  Modelled from the spec: \<open>HyperParameterSet.to_config\<close> is not among the sources; it
  serialises each parameter as its name with its bound value.
\<close>

definition to_config :: "hyper_parameter list \<Rightarrow> (string \<rightharpoonup> pyval)" where
  "to_config ps = dict_of (map (\<lambda>p. (name p, pvalue p)) ps)"

text \<open>
  \<open>set(...)\<close> of a list of tuples hashes every tuple, hence every element of each.
\<close>

definition all_hashable :: "pyval list list \<Rightarrow> bool" where
  "all_hashable ts = list_all (list_all hashable) ts"

section \<open>\<open>grid_search_next_runs\<close>\<close>

text \<open>
  The projection of one observed run onto the categorical names:
  \<^verbatim>\<open>tuple(list_to_tuple(run.config[name]["value"]) for name in param_names if name in run.config)\<close>
\<close>

definition seen_tuple :: "string list \<Rightarrow> sweep_run \<Rightarrow> pyval list" where
  "seen_tuple param_names run =
     map (\<lambda>nm. list_to_tuple (the (config run nm)))
       (filter (\<lambda>nm. config run nm \<noteq> None) param_names)"

text \<open>
  From \<open>param_names\<close> to the (possibly shuffled) list \<open>remaining_params\<close>.  A set is a
  duplicate-free list; building one raises \<open>TypeError\<close> on an unhashable element.
\<close>

definition remaining_params ::
  "py_env \<Rightarrow> sweep_run list \<Rightarrow> hyper_parameter list \<Rightarrow> bool \<Rightarrow> error + pyval list list" where
  "remaining_params env runs discrete_params randomize_order =
     (let param_names = map name discrete_params;
          param_values = map (\<lambda>p. map list_to_tuple (pvalues p)) discrete_params;
          product = product_lists param_values
      in if \<not> all_hashable product then Inl TypeError
         else
           let all_param_values = remdups product;
               seen = map (seen_tuple param_names) runs
           in if \<not> all_hashable seen then Inl TypeError
              else
                let param_values_seen = remdups seen;
                    remaining =
                      set_order env (filter (\<lambda>t. t \<notin> set param_values_seen) all_param_values)
                in Inr (if randomize_order then shuffle env remaining else remaining))"

text \<open>
  \<open>for param, value in zip(discrete_params, next_value): param.value = tuple_to_list(value)\<close>:
  \<open>zip\<close> stops at the shorter sequence, the other parameters keep their value.
\<close>

fun bind_values :: "hyper_parameter list \<Rightarrow> pyval list \<Rightarrow> hyper_parameter list" where
  "bind_values (p # ps) (v # vs) = p\<lparr>pvalue := tuple_to_list v\<rparr> # bind_values ps vs"
| "bind_values ps vs = ps"

text \<open>
  The loop \<open>for i in range(min(n, n_remaining))\<close>, with the parameters (whose bound values
  it overwrites) and the list it pops from as state; \<open>pop(0)\<close> of an empty list raises
  \<open>IndexError\<close>.  Returns the runs appended to \<open>retval\<close>.
\<close>

fun draw_runs ::
  "nat \<Rightarrow> hyper_parameter list \<Rightarrow> (string \<rightharpoonup> pyval) \<Rightarrow> pyval list list \<Rightarrow> error + sweep_run list" where
  "draw_runs 0 discrete_params constant_config remaining = Inr []"
| "draw_runs (Suc i) discrete_params constant_config [] = Inl IndexError"
| "draw_runs (Suc i) discrete_params constant_config (next_value # remaining) =
     (let discrete_params = bind_values discrete_params next_value;
          output_config = to_config discrete_params ++ constant_config;
          run = \<lparr>config = output_config\<rparr>
      in (case draw_runs i discrete_params constant_config remaining of
            Inl e \<Rightarrow> Inl e
          | Inr runs \<Rightarrow> Inr (run # runs)))"

definition grid_search_next_runs ::
  "py_env \<Rightarrow> sweep_run list \<Rightarrow> sweep_config \<Rightarrow> bool \<Rightarrow> int \<Rightarrow> bool \<Rightarrow> error + sweep_run option list" where
  \<open>grid_search_next_runs env runs sweep_config validate n randomize_order =
     (if validate \<and> \<not> schema_ok env sweep_config then Inl ValidationError
      else
        (case method sweep_config of
           None \<Rightarrow> Inl (KeyError ''method'')
         | Some m \<Rightarrow>
             if m \<noteq> ''grid''
             then Inl (ValueError ''Invalid sweep configuration for grid_search_next_run.'')
             else
               (case parameters sweep_config of
                  None \<Rightarrow> Inl (ValueError ''Grid search requires "parameters" section'')
                | Some params \<Rightarrow>
                    (case check_params params of
                       Some e \<Rightarrow> Inl e
                     | None \<Rightarrow>
                         let discrete_params = filter (\<lambda>p. ptype p = CATEGORICAL) params;
                             constant_params = filter (\<lambda>p. ptype p = CONSTANT) params;
                             constant_config = to_config constant_params
                         in (case remaining_params env runs discrete_params randomize_order of
                               Inl e \<Rightarrow> Inl e
                             | Inr remaining \<Rightarrow>
                                 (let n_remaining = int (length remaining)
                                  in (case draw_runs (nat (min n n_remaining)) discrete_params
                                            constant_config remaining of
                                        Inl e \<Rightarrow> Inl e
                                      | Inr retval \<Rightarrow>
                                          Inr (map Some retval @
                                               (if n > n_remaining then [None] else [])))))))))\<close>

section \<open>\<open>grid_search_next_run\<close>, the single-suggestion implementation\<close>

text \<open>
  \<open>tuple(run.config[name] for name in param_names)\<close>: a missing key raises \<open>KeyError\<close>.
\<close>

fun project_run :: "sweep_run \<Rightarrow> string list \<Rightarrow> error + pyval list" where
  "project_run run [] = Inr []"
| "project_run run (nm # nms) =
     (case config run nm of
        None \<Rightarrow> Inl (KeyError nm)
      | Some v \<Rightarrow> (case project_run run nms of Inl e \<Rightarrow> Inl e | Inr vs \<Rightarrow> Inr (v # vs)))"

fun project_runs :: "sweep_run list \<Rightarrow> string list \<Rightarrow> error + pyval list list" where
  "project_runs [] nms = Inr []"
| "project_runs (run # runs) nms =
     (case project_run run nms of
        Inl e \<Rightarrow> Inl e
      | Inr t \<Rightarrow> (case project_runs runs nms of Inl e \<Rightarrow> Inl e | Inr ts \<Rightarrow> Inr (t # ts)))"

definition remaining_params_single ::
  "py_env \<Rightarrow> sweep_run list \<Rightarrow> hyper_parameter list \<Rightarrow> bool \<Rightarrow> error + pyval list list" where
  "remaining_params_single env runs discrete_params randomize_order =
     (let param_names = map name discrete_params;
          param_values = map pvalues discrete_params;
          product = product_lists param_values
      in if \<not> all_hashable product then Inl TypeError
         else
           let all_param_values = remdups product
           in (case project_runs runs param_names of
                 Inl e \<Rightarrow> Inl e
               | Inr seen \<Rightarrow>
                   if \<not> all_hashable seen then Inl TypeError
                   else
                     let param_values_seen = remdups seen;
                         remaining =
                           set_order env
                             (filter (\<lambda>t. t \<notin> set param_values_seen) all_param_values)
                     in Inr (if randomize_order then shuffle env remaining else remaining)))"

definition grid_search_next_run ::
  "py_env \<Rightarrow> sweep_run list \<Rightarrow> sweep_config \<Rightarrow> bool \<Rightarrow> error + sweep_run option" where
  \<open>grid_search_next_run env runs sweep_config randomize_order =
     (if \<not> schema_ok env sweep_config then Inl ValidationError
      else
        (case parameters sweep_config of
           None \<Rightarrow> Inl (ValueError ''Grid search requires "parameters" section'')
         | Some params \<Rightarrow>
             (case check_params params of
                Some e \<Rightarrow> Inl e
              | None \<Rightarrow>
                  let discrete_params = filter (\<lambda>p. ptype p = CATEGORICAL) params;
                      param_names = map name discrete_params
                  in (case remaining_params_single env runs discrete_params randomize_order of
                        Inl e \<Rightarrow> Inl e
                      | Inr remaining \<Rightarrow>
                          (case remaining of
                             [] \<Rightarrow> Inr None
                           | t # rest \<Rightarrow>
                               Inr (Some \<lparr>config = dict_of (zip param_names t)\<rparr>))))))\<close>

section \<open>Observations used to state the properties\<close>

text \<open>
  The canonical categorical assignment of a configuration: its values at the categorical
  names, in the order of the names, each in canonical form.
\<close>

definition categorical_assignment :: "string list \<Rightarrow> sweep_run \<Rightarrow> pyval list" where
  "categorical_assignment param_names run =
     map (\<lambda>nm. list_to_tuple (the (config run nm))) param_names"

definition discrete_of :: "hyper_parameter list \<Rightarrow> hyper_parameter list" where
  "discrete_of params = filter (\<lambda>p. ptype p = CATEGORICAL) params"

definition constant_of :: "hyper_parameter list \<Rightarrow> hyper_parameter list" where
  "constant_of params = filter (\<lambda>p. ptype p = CONSTANT) params"

text \<open>The canonical candidate values of the categorical parameters, one list per parameter.\<close>

definition canonical_values :: "hyper_parameter list \<Rightarrow> pyval list list" where
  "canonical_values params = map (\<lambda>p. map list_to_tuple (pvalues p)) (discrete_of params)"

text \<open>An environment whose set order and shuffle only reorder.\<close>

definition reorders :: "py_env \<Rightarrow> bool" where
  "reorders env \<longleftrightarrow>
     (\<forall>ts. mset (set_order env ts) = mset ts) \<and> (\<forall>ts. mset (shuffle env ts) = mset ts)"

text \<open>
  A concrete environment for evaluation: the validator accepts, a set is iterated in the
  order of its list, and the shuffle reverses.
\<close>

definition plain_env :: py_env where
  "plain_env = \<lparr>schema_ok = (\<lambda>c. True), set_order = (\<lambda>ts. ts), shuffle = rev\<rparr>"

text \<open>
  The run built in one iteration of the loop from the tuple \<open>next_value\<close>: the categorical
  names with the values converted back, updated with the constants.
\<close>

definition suggested_run :: "string list \<Rightarrow> (string \<rightharpoonup> pyval) \<Rightarrow> pyval list \<Rightarrow> sweep_run" where
  "suggested_run param_names constant_config t =
     \<lparr>config = dict_of (zip param_names (map tuple_to_list t)) ++ constant_config\<rparr>"

section \<open>Concrete inputs\<close>

text \<open>
  Builders for parameters and descriptions: a categorical parameter as
  \<open>{"values": [...]}\<close>, a constant as \<open>{"value": v}\<close>, a range as \<open>{"min": .., "max": ..}\<close>,
  and a description \<open>{"method": "grid", "parameters": {...}}\<close>.
\<close>

definition categorical_param :: "string \<Rightarrow> pyval list \<Rightarrow> hyper_parameter" where
  "categorical_param nm vs = \<lparr>name = nm, ptype = CATEGORICAL, pvalues = vs, pvalue = PNone\<rparr>"

definition constant_param :: "string \<Rightarrow> pyval \<Rightarrow> hyper_parameter" where
  "constant_param nm v = \<lparr>name = nm, ptype = CONSTANT, pvalues = [], pvalue = v\<rparr>"

definition range_param :: "string \<Rightarrow> hyper_parameter" where
  "range_param nm = \<lparr>name = nm, ptype = OTHER_TYPE, pvalues = [], pvalue = PNone\<rparr>"

definition grid_config :: "hyper_parameter list \<Rightarrow> sweep_config" where
  "grid_config ps = \<lparr>method = Some ''grid'', parameters = Some ps\<rparr>"

section \<open>Auxiliary lemmas\<close>

lemma tuple_to_list_list_to_tuple: "tuple_free v \<Longrightarrow> tuple_to_list (list_to_tuple v) = v"
  by (induction v) (auto simp: list_all_iff map_idI)

lemma list_to_tuple_tuple_to_list: "hashable v \<Longrightarrow> list_to_tuple (tuple_to_list v) = v"
  by (induction v) (auto simp: list_all_iff map_idI)

lemma check_params_None:
  "check_params ps = None \<longleftrightarrow> (\<forall>p\<in>set ps. ptype p = CATEGORICAL \<or> ptype p = CONSTANT)"
  by (induction ps) auto

lemma check_params_find:
  "find (\<lambda>p. ptype p \<noteq> CATEGORICAL \<and> ptype p \<noteq> CONSTANT) ps = Some p \<Longrightarrow>
   check_params ps = Some (ValueError (disallowed_message (name p)))"
  by (induction ps) (auto split: if_splits)

lemma names_bind_values: "map name (bind_values ps vs) = map name ps"
  by (induction ps vs rule: bind_values.induct) auto

lemma length_bind_values: "length (bind_values ps vs) = length ps"
  by (induction ps vs rule: bind_values.induct) auto

lemma pairs_bind_values:
  "length vs = length ps \<Longrightarrow>
   map (\<lambda>p. (name p, pvalue p)) (bind_values ps vs) = zip (map name ps) (map tuple_to_list vs)"
  by (induction ps vs rule: bind_values.induct) auto

lemma to_config_bind_values:
  "length vs = length ps \<Longrightarrow>
   to_config (bind_values ps vs) = dict_of (zip (map name ps) (map tuple_to_list vs))"
  by (simp add: to_config_def pairs_bind_values)

lemma draw_runs_total:
  "k \<le> length rem \<Longrightarrow> \<exists>rs. draw_runs k dps cc rem = Inr rs \<and> length rs = k"
proof (induction k arbitrary: dps rem)
  case 0
  then show ?case by simp
next
  case (Suc k)
  then obtain t rest where rem: "rem = t # rest" and le: "k \<le> length rest"
    by (cases rem) auto
  from Suc.IH [OF le, of "bind_values dps t"]
  obtain rs where "draw_runs k (bind_values dps t) cc rest = Inr rs" "length rs = k"
    by blast
  then show ?case by (simp add: rem Let_def)
qed

lemma draw_runs_eq:
  "k \<le> length rem \<Longrightarrow> \<forall>t\<in>set rem. length t = length dps \<Longrightarrow>
   draw_runs k dps cc rem = Inr (map (suggested_run (map name dps) cc) (take k rem))"
proof (induction k arbitrary: dps rem)
  case 0
  then show ?case by simp
next
  case (Suc k)
  then obtain t rest where rem: "rem = t # rest" and le: "k \<le> length rest"
    by (cases rem) auto
  have len: "length t = length dps"
    using Suc.prems(2) by (simp add: rem)
  have lens': "\<forall>u\<in>set rest. length u = length (bind_values dps t)"
    using Suc.prems(2) by (simp add: rem length_bind_values)
  show ?case
    using Suc.IH [OF le lens']
    by (simp add: rem Let_def to_config_bind_values [OF len] suggested_run_def names_bind_values)
qed


lemma map_of_rev_distinct: "distinct (map fst xs) \<Longrightarrow> map_of (rev xs) = map_of xs"
proof (induction xs)
  case Nil
  then show ?case by simp
next
  case (Cons x xs)
  obtain k v where x: "x = (k, v)" by (cases x)
  from Cons.prems have k: "k \<notin> fst ` set xs" and d: "distinct (map fst xs)"
    by (auto simp: x)
  have "map_of (rev (x # xs)) = map_of [(k, v)] ++ map_of (rev xs)"
    by (simp add: x)
  also have "\<dots> = map_of [(k, v)] ++ map_of xs"
    using Cons.IH [OF d] by simp
  also have "\<dots> = map_of (x # xs)"
  proof
    fix a
    show "(map_of [(k, v)] ++ map_of xs) a = map_of (x # xs) a"
      using k by (cases "map_of xs a") (auto simp: x map_add_def weak_map_of_SomeI dest: map_of_SomeD
          intro: rev_image_eqI)
  qed
  finally show ?case .
qed

lemma dict_of_zip_nth:
  assumes "distinct nms" "length vs = length nms" "i < length nms"
  shows "dict_of (zip nms vs) (nms ! i) = Some (vs ! i)"
proof -
  have "distinct (map fst (zip nms vs))"
    using assms by simp
  then have "dict_of (zip nms vs) = map_of (zip nms vs)"
    by (simp add: dict_of_def map_of_rev_distinct)
  then show ?thesis
    using assms by (simp add: map_of_zip_nth)
qed

lemma dom_dict_of: "dom (dict_of kvs) = fst ` set kvs"
  by (simp add: dict_of_def dom_map_of_conv_image_fst)

lemma dom_to_config: "dom (to_config ps) = name ` set ps"
  by (auto simp: to_config_def dom_dict_of image_image)

lemma config_suggested_run:
  assumes "distinct nms" "length t = length nms" "i < length nms" "nms ! i \<notin> dom cc"
  shows "config (suggested_run nms cc t) (nms ! i) = Some (tuple_to_list (t ! i))"
  using assms dict_of_zip_nth [of nms "map tuple_to_list t" i]
  by (auto simp: suggested_run_def map_add_def domIff split: option.splits)

lemma categorical_assignment_suggested_run:
  assumes "distinct nms" "length t = length nms" "set nms \<inter> dom cc = {}" "list_all hashable t"
  shows "categorical_assignment nms (suggested_run nms cc t) = t"
proof (rule nth_equalityI)
  show "length (categorical_assignment nms (suggested_run nms cc t)) = length t"
    using assms by (simp add: categorical_assignment_def)
next
  fix i assume "i < length (categorical_assignment nms (suggested_run nms cc t))"
  then have i: "i < length nms" by (simp add: categorical_assignment_def)
  then have "nms ! i \<notin> dom cc" using assms(3) by (meson disjoint_iff nth_mem)
  from config_suggested_run [OF assms(1,2) i this]
  have "categorical_assignment nms (suggested_run nms cc t) ! i = list_to_tuple (tuple_to_list (t ! i))"
    using i by (simp add: categorical_assignment_def)
  moreover have "hashable (t ! i)"
    using assms(2,4) i by (simp add: list_all_length)
  ultimately show "categorical_assignment nms (suggested_run nms cc t) ! i = t ! i"
    by (simp add: list_to_tuple_tuple_to_list)
qed


lemma remaining_params_mset:
  assumes "remaining_params env runs dps rand = Inr rem" and "reorders env"
  shows "mset rem =
         mset (filter (\<lambda>t. t \<notin> set (map (seen_tuple (map name dps)) runs))
                 (remdups (product_lists (map (\<lambda>p. map list_to_tuple (pvalues p)) dps))))"
    and "all_hashable (product_lists (map (\<lambda>p. map list_to_tuple (pvalues p)) dps))"
    and "all_hashable (map (seen_tuple (map name dps)) runs)"
  using assms
  by (auto simp: remaining_params_def Let_def reorders_def split: if_splits)

lemma remaining_params_set:
  assumes "remaining_params env runs dps rand = Inr rem" and "reorders env"
  shows "set rem = set (product_lists (map (\<lambda>p. map list_to_tuple (pvalues p)) dps)) -
                   seen_tuple (map name dps) ` set runs"
    and "distinct rem"
proof -
  note m = remaining_params_mset(1) [OF assms]
  from m have "set_mset (mset rem) = set_mset (mset (filter (\<lambda>t. t \<notin> set (map (seen_tuple (map name dps)) runs))
                 (remdups (product_lists (map (\<lambda>p. map list_to_tuple (pvalues p)) dps)))))"
    by simp
  then show "set rem = set (product_lists (map (\<lambda>p. map list_to_tuple (pvalues p)) dps)) -
                   seen_tuple (map name dps) ` set runs"
    by auto
  have "distinct (filter (\<lambda>t. t \<notin> set (map (seen_tuple (map name dps)) runs))
                 (remdups (product_lists (map (\<lambda>p. map list_to_tuple (pvalues p)) dps))))"
    by simp
  then show "distinct rem"
    using m by (metis mset_eq_imp_distinct_iff)
qed

lemma remaining_params_elem:
  assumes "remaining_params env runs dps rand = Inr rem" and "reorders env" and "t \<in> set rem"
  shows "length t = length dps" and "list_all hashable t"
proof -
  from remaining_params_set(1) [OF assms(1,2)] assms(3)
  have t: "t \<in> set (product_lists (map (\<lambda>p. map list_to_tuple (pvalues p)) dps))"
    by simp
  then show "length t = length dps"
    by (simp add: in_set_product_lists_length)
  from remaining_params_mset(2) [OF assms(1,2)] t show "list_all hashable t"
    by (simp add: all_hashable_def list_all_iff)
qed

lemma next_runs_unfold:
  assumes "validate \<longrightarrow> schema_ok env cfg" and "method cfg = Some ''grid''"
    and "parameters cfg = Some params" and "check_params params = None"
  shows "grid_search_next_runs env runs cfg validate n rand =
         (case remaining_params env runs (discrete_of params) rand of
            Inl e \<Rightarrow> Inl e
          | Inr rem \<Rightarrow>
              (case draw_runs (nat (min n (int (length rem)))) (discrete_of params)
                      (to_config (constant_of params)) rem of
                 Inl e \<Rightarrow> Inl e
               | Inr retval \<Rightarrow>
                   Inr (map Some retval @ (if n > int (length rem) then [None] else []))))"
  unfolding grid_search_next_runs_def discrete_of_def constant_of_def Let_def
  using assms by auto

lemma next_runs_Inr_cases:
  assumes "grid_search_next_runs env runs cfg validate n rand = Inr rs"
  obtains params where "validate \<longrightarrow> schema_ok env cfg" and "method cfg = Some ''grid''"
    and "parameters cfg = Some params" and "check_params params = None"
  using assms
  by (auto simp: grid_search_next_runs_def split: if_splits option.splits)

lemma next_runs_shape:
  assumes "validate \<longrightarrow> schema_ok env cfg" and "method cfg = Some ''grid''"
    and "parameters cfg = Some params" and "check_params params = None"
    and "remaining_params env runs (discrete_of params) rand = Inr rem" and "reorders env"
  shows "grid_search_next_runs env runs cfg validate n rand =
         Inr (map (\<lambda>t. Some (suggested_run (map name (discrete_of params))
                              (to_config (constant_of params)) t))
                (take (nat (min n (int (length rem)))) rem) @
              (if n > int (length rem) then [None] else []))"
proof -
  have le: "nat (min n (int (length rem))) \<le> length rem" by simp
  have len: "\<forall>t\<in>set rem. length t = length (discrete_of params)"
    using remaining_params_elem(1) [OF assms(5,6)] by blast
  show ?thesis
    by (simp add: next_runs_unfold [OF assms(1-4)] assms(5) draw_runs_eq [OF le len] comp_def)
qed

text \<open>Unfolding the definitions on concrete inputs.\<close>

lemmas ev = grid_search_next_runs_def grid_search_next_run_def plain_env_def remaining_params_def
  remaining_params_single_def all_hashable_def to_config_def dict_of_def seen_tuple_def
  categorical_param_def constant_param_def range_param_def grid_config_def discrete_of_def constant_of_def

section \<open>Exhaustion is signalled by a sentinel\<close>

text \<open>
  Claim C3.  Once the description has passed the checks and the remaining configurations
  \<open>rem\<close> have been computed, \<open>grid_search_next_runs\<close> does not raise: it returns
  \<open>min n |rem|\<close> runs (none for a negative \<open>n\<close>), followed by exactly one \<open>None\<close> if and
  only if \<open>n > |rem|\<close>; in particular an exhausted grid gives \<open>[None]\<close> for \<open>n \<ge> 1\<close>.
  \<open>grid_search_next_run\<close> returns \<open>None\<close> when nothing remains.
\<close>

theorem C3_exhaustion_sentinel:
  assumes "validate \<longrightarrow> schema_ok env cfg" and "method cfg = Some ''grid''"
    and "parameters cfg = Some params" and "check_params params = None"
    and "remaining_params env runs (discrete_of params) rand = Inr rem"
  shows "(\<exists>real. grid_search_next_runs env runs cfg validate n rand =
                  Inr (map Some real @ (if n > int (length rem) then [None] else [])) \<and>
                int (length real) = max 0 (min n (int (length rem)))) \<and>
         (rem = [] \<and> 1 \<le> n \<longrightarrow>
            grid_search_next_runs env runs cfg validate n rand = Inr [None]) \<and>
         (schema_ok env cfg \<and>
          remaining_params_single env runs (discrete_of params) rand = Inr [] \<longrightarrow>
            grid_search_next_run env runs cfg rand = Inr None)"
proof -
  have le: "nat (min n (int (length rem))) \<le> length rem" by simp
  from draw_runs_total [OF le]
  obtain real where real: "draw_runs (nat (min n (int (length rem)))) (discrete_of params)
        (to_config (constant_of params)) rem = Inr real"
    and len: "length real = nat (min n (int (length rem)))"
    by blast
  have eq: "grid_search_next_runs env runs cfg validate n rand =
        Inr (map Some real @ (if n > int (length rem) then [None] else []))"
    by (simp add: next_runs_unfold [OF assms(1-4)] assms(5) real)
  have 1: "\<exists>real. grid_search_next_runs env runs cfg validate n rand =
                  Inr (map Some real @ (if n > int (length rem) then [None] else [])) \<and>
                int (length real) = max 0 (min n (int (length rem)))"
    using eq len by auto
  have 2: "rem = [] \<and> 1 \<le> n \<longrightarrow>
            grid_search_next_runs env runs cfg validate n rand = Inr [None]"
    using eq len by auto
  have 3: "schema_ok env cfg \<and>
          remaining_params_single env runs (discrete_of params) rand = Inr [] \<longrightarrow>
            grid_search_next_run env runs cfg rand = Inr None"
    using assms(3,4) by (simp add: grid_search_next_run_def discrete_of_def)
  from 1 2 3 show ?thesis by blast
qed

theorem C3_exhaustion_sentinel_witness:
  "grid_search_next_runs plain_env [\<lparr>config = [''a'' \<mapsto> PInt 1]\<rparr>]
     (grid_config [categorical_param ''a'' [PInt 1]]) False 1 False = Inr [None] \<and>
   grid_search_next_run plain_env [\<lparr>config = [''a'' \<mapsto> PInt 1]\<rparr>]
     (grid_config [categorical_param ''a'' [PInt 1]]) False = Inr None"
  using C3_exhaustion_sentinel [of False plain_env "grid_config [categorical_param ''a'' [PInt 1]]"
      "[categorical_param ''a'' [PInt 1]]" "[\<lparr>config = [''a'' \<mapsto> PInt 1]\<rparr>]" False "[]" 1]
  by (simp add: ev)

section \<open>Unsupported parameter kinds are rejected\<close>

lemma check_params_rejected:
  assumes "q \<in> set params" and "ptype q \<noteq> CATEGORICAL" and "ptype q \<noteq> CONSTANT"
  shows "\<exists>p\<in>set params. ptype p \<noteq> CATEGORICAL \<and> ptype p \<noteq> CONSTANT \<and>
           check_params params = Some (ValueError (disallowed_message (name p)))"
  using assms by (induction params) auto

lemma remaining_params_Inl: "remaining_params env runs dps rand = Inl e \<Longrightarrow> e = TypeError"
  by (auto simp: remaining_params_def Let_def split: if_splits)

text \<open>
  Claim C5.  When the parameters contain one that is neither categorical nor constant, both
  \<open>grid_search_next_runs\<close> and \<open>grid_search_next_run\<close> fail and suggest nothing; once the
  earlier checks have passed (validation, and for \<open>grid_search_next_runs\<close> the method), the
  error is the \<open>ValueError\<close> whose message names an offending parameter (the first one).
\<close>

theorem C5_unsupported_kind_rejected:
  assumes "parameters cfg = Some params"
    and "q \<in> set params" and "ptype q \<noteq> CATEGORICAL" and "ptype q \<noteq> CONSTANT"
  shows "(\<exists>e. grid_search_next_runs env runs cfg validate n rand = Inl e) \<and>
         (\<exists>e. grid_search_next_run env runs cfg rand = Inl e) \<and>
         (\<exists>p\<in>set params. ptype p \<noteq> CATEGORICAL \<and> ptype p \<noteq> CONSTANT \<and>
            ((validate \<longrightarrow> schema_ok env cfg) \<and> method cfg = Some ''grid'' \<longrightarrow>
               grid_search_next_runs env runs cfg validate n rand =
                 Inl (ValueError (disallowed_message (name p)))) \<and>
            (schema_ok env cfg \<longrightarrow>
               grid_search_next_run env runs cfg rand =
                 Inl (ValueError (disallowed_message (name p)))))"
proof -
  from check_params_rejected [OF assms(2-4)]
  obtain p where p: "p \<in> set params" "ptype p \<noteq> CATEGORICAL" "ptype p \<noteq> CONSTANT"
    and chk: "check_params params = Some (ValueError (disallowed_message (name p)))"
    by blast
  have 1: "\<exists>e. grid_search_next_runs env runs cfg validate n rand = Inl e"
    using assms(1) chk by (auto simp: grid_search_next_runs_def split: option.splits)
  have 2: "\<exists>e. grid_search_next_run env runs cfg rand = Inl e"
    using assms(1) chk by (auto simp: grid_search_next_run_def)
  have 3: "(validate \<longrightarrow> schema_ok env cfg) \<and> method cfg = Some ''grid'' \<longrightarrow>
               grid_search_next_runs env runs cfg validate n rand =
                 Inl (ValueError (disallowed_message (name p)))"
    using assms(1) chk by (auto simp: grid_search_next_runs_def)
  have 4: "schema_ok env cfg \<longrightarrow>
               grid_search_next_run env runs cfg rand =
                 Inl (ValueError (disallowed_message (name p)))"
    using assms(1) chk by (auto simp: grid_search_next_run_def)
  from 1 2 3 4 p show ?thesis by blast
qed

theorem C5_unsupported_kind_rejected_witness:
  "grid_search_next_runs plain_env [] (grid_config [range_param ''v1'', range_param ''v2'']) False 1 False =
     Inl (ValueError (disallowed_message ''v1'')) \<and>
   grid_search_next_run plain_env [] (grid_config [range_param ''v1'', range_param ''v2'']) False =
     Inl (ValueError (disallowed_message ''v1''))"
  using C5_unsupported_kind_rejected [of "grid_config [range_param ''v1'', range_param ''v2'']"
      "[range_param ''v1'', range_param ''v2'']" "range_param ''v2''" plain_env "[]" False 1 False]
  by (simp add: ev)

section \<open>The method field\<close>

text \<open>
  Claim C6 says that a description without a \<open>method\<close> field does not fail on that account.
  \<open>grid_search_next_runs\<close> reads \<open>sweep_config["method"]\<close> unconditionally: on a plain
  dictionary without the key it raises \<open>KeyError\<close>.
\<close>

theorem C6_missing_method_counterexample:
  "grid_search_next_runs plain_env []
     \<lparr>method = None, parameters = Some [categorical_param ''a'' [PInt 1, PInt 2, PInt 3]]\<rparr>
     False 1 False = Inl (KeyError ''method'')"
  by (simp add: grid_search_next_runs_def)

text \<open>
  Claim C6, amended.  In \<open>grid_search_next_runs\<close> a method that is present and is not
  \<open>grid\<close> fails with the \<open>ValueError\<close> of the method check, and a method equal to \<open>grid\<close>
  never does.  \<open>grid_search_next_run\<close> has no method check of its own: its result does not
  depend on the method field, as long as the schema validation decides the same.
\<close>

theorem C6_method_check:
  "((validate \<longrightarrow> schema_ok env cfg) \<and> method cfg = Some m \<and> m \<noteq> ''grid'' \<longrightarrow>
      grid_search_next_runs env runs cfg validate n rand =
        Inl (ValueError ''Invalid sweep configuration for grid_search_next_run.'')) \<and>
   (method cfg = Some ''grid'' \<longrightarrow>
      grid_search_next_runs env runs cfg validate n rand \<noteq>
        Inl (ValueError ''Invalid sweep configuration for grid_search_next_run.'')) \<and>
   (schema_ok env (cfg\<lparr>method := m'\<rparr>) = schema_ok env cfg \<longrightarrow>
      grid_search_next_run env runs (cfg\<lparr>method := m'\<rparr>) rand =
        grid_search_next_run env runs cfg rand)"
proof -
  have msg: "\<And>ps. check_params ps \<noteq>
      Some (ValueError ''Invalid sweep configuration for grid_search_next_run.'')"
  proof -
    fix ps show "check_params ps \<noteq>
      Some (ValueError ''Invalid sweep configuration for grid_search_next_run.'')"
      by (induction ps) (auto simp: disallowed_message_def)
  qed
  have 1: "(validate \<longrightarrow> schema_ok env cfg) \<and> method cfg = Some m \<and> m \<noteq> ''grid'' \<longrightarrow>
      grid_search_next_runs env runs cfg validate n rand =
        Inl (ValueError ''Invalid sweep configuration for grid_search_next_run.'')"
    by (auto simp: grid_search_next_runs_def)
  have 2: "method cfg = Some ''grid'' \<longrightarrow>
      grid_search_next_runs env runs cfg validate n rand \<noteq>
        Inl (ValueError ''Invalid sweep configuration for grid_search_next_run.'')"
  proof
    assume m: "method cfg = Some ''grid''"
    show "grid_search_next_runs env runs cfg validate n rand \<noteq>
        Inl (ValueError ''Invalid sweep configuration for grid_search_next_run.'')"
    proof (cases "validate \<longrightarrow> schema_ok env cfg")
      case False
      then show ?thesis by (auto simp: grid_search_next_runs_def)
    next
      case v: True
      show ?thesis
      proof (cases "parameters cfg")
        case None
        then show ?thesis using m v by (auto simp: grid_search_next_runs_def)
      next
        case (Some params)
        show ?thesis
        proof (cases "check_params params")
          case (Some e)
          then show ?thesis
            using m v \<open>parameters cfg = Some params\<close> msg [of params]
            by (auto simp: grid_search_next_runs_def)
        next
          case None
          show ?thesis
          proof (cases "remaining_params env runs (discrete_of params) rand")
            case (Inl e)
            then have "e = TypeError" by (rule remaining_params_Inl)
            then show ?thesis
              by (simp add: next_runs_unfold [OF v m \<open>parameters cfg = Some params\<close> None] Inl)
          next
            case (Inr rem)
            have le: "nat (min n (int (length rem))) \<le> length rem" by simp
            from draw_runs_total [OF le]
            obtain real where "draw_runs (nat (min n (int (length rem)))) (discrete_of params)
                (to_config (constant_of params)) rem = Inr real"
              by blast
            then show ?thesis
              by (simp add: next_runs_unfold [OF v m \<open>parameters cfg = Some params\<close> None] Inr)
          qed
        qed
      qed
    qed
  qed
  have 3: "schema_ok env (cfg\<lparr>method := m'\<rparr>) = schema_ok env cfg \<longrightarrow>
      grid_search_next_run env runs (cfg\<lparr>method := m'\<rparr>) rand =
        grid_search_next_run env runs cfg rand"
    by (simp add: grid_search_next_run_def)
  from 1 2 3 show ?thesis by blast
qed

theorem C6_method_check_witness:
  "grid_search_next_runs plain_env []
     \<lparr>method = Some ''random'', parameters = Some [categorical_param ''a'' [PInt 1]]\<rparr> False 1 False =
     Inl (ValueError ''Invalid sweep configuration for grid_search_next_run.'') \<and>
   grid_search_next_runs plain_env [] (grid_config [categorical_param ''a'' [PInt 1]]) False 1 False \<noteq>
     Inl (ValueError ''Invalid sweep configuration for grid_search_next_run.'') \<and>
   grid_search_next_run plain_env []
     ((grid_config [categorical_param ''a'' [PInt 1]])\<lparr>method := Some ''random''\<rparr>) False =
   grid_search_next_run plain_env [] (grid_config [categorical_param ''a'' [PInt 1]]) False"
  using C6_method_check [of False plain_env
      "\<lparr>method = Some ''random'', parameters = Some [categorical_param ''a'' [PInt 1]]\<rparr>"
      "''random''" "[]" 1 False "Some ''random''"]
    C6_method_check [of False plain_env "grid_config [categorical_param ''a'' [PInt 1]]"
      "''random''" "[]" 1 False "Some ''random''"]
  by (simp add: plain_env_def grid_config_def)

section \<open>A search space without categorical parameters\<close>

lemma reorders_short:
  assumes "reorders env" and "length ts \<le> 1"
  shows "set_order env ts = ts" and "shuffle env ts = ts"
proof -
  have m: "mset (set_order env ts) = mset ts" "mset (shuffle env ts) = mset ts"
    using assms(1) by (simp_all add: reorders_def)
  have "\<And>us. mset us = mset ts \<Longrightarrow> us = ts"
  proof -
    fix us assume us: "mset us = mset ts"
    show "us = ts"
    proof (cases ts)
      case Nil
      then show ?thesis using us by simp
    next
      case (Cons t rest)
      then have "rest = []" using assms(2) by simp
      then show ?thesis using us Cons by simp
    qed
  qed
  with m show "set_order env ts = ts" and "shuffle env ts = ts" by blast+
qed

lemma seen_tuple_no_names: "map (seen_tuple []) runs = replicate (length runs) []"
  by (induction runs) (simp_all add: seen_tuple_def)

lemma project_runs_no_names: "project_runs runs [] = Inr (replicate (length runs) [])"
  by (induction runs) simp_all

lemma all_hashable_empty_tuples: "all_hashable (replicate k [])"
  by (simp add: all_hashable_def list_all_iff)

lemma remaining_params_eq:
  assumes "all_hashable (product_lists (map (\<lambda>p. map list_to_tuple (pvalues p)) dps))"
    and "all_hashable (map (seen_tuple (map name dps)) runs)"
    and "rem = set_order env
                 (filter (\<lambda>t. t \<notin> seen_tuple (map name dps) ` set runs)
                    (remdups (product_lists (map (\<lambda>p. map list_to_tuple (pvalues p)) dps))))"
  shows "remaining_params env runs dps rand = Inr (if rand then shuffle env rem else rem)"
  unfolding remaining_params_def Let_def using assms by simp

lemma remaining_params_single_eq:
  assumes "all_hashable (product_lists (map pvalues dps))"
    and "project_runs runs (map name dps) = Inr seen"
    and "all_hashable seen"
    and "rem = set_order env
                 (filter (\<lambda>t. t \<notin> set seen) (remdups (product_lists (map pvalues dps))))"
  shows "remaining_params_single env runs dps rand = Inr (if rand then shuffle env rem else rem)"
  unfolding remaining_params_single_def Let_def using assms by simp

lemma remaining_params_no_categorical:
  assumes "reorders env"
  shows "remaining_params env runs [] rand = Inr (if runs = [] then [[]] else [])"
proof -
  define rem where "rem = set_order env
      (filter (\<lambda>t. t \<notin> seen_tuple (map name ([]::hyper_parameter list)) ` set runs)
         (remdups (product_lists (map (\<lambda>p. map list_to_tuple (pvalues p)) ([]::hyper_parameter list)))))"
  have f: "filter (\<lambda>t. t \<notin> seen_tuple (map name ([]::hyper_parameter list)) ` set runs)
         (remdups (product_lists (map (\<lambda>p. map list_to_tuple (pvalues p)) ([]::hyper_parameter list)))) =
        (if runs = [] then [[]] else [])"
    by (cases runs) (simp_all add: seen_tuple_def)
  have rem: "rem = (if runs = [] then [[]] else [])"
    unfolding rem_def f
    using reorders_short(1) [OF assms, of "[[]]"] reorders_short(1) [OF assms, of "[]"] by simp
  have sh: "shuffle env rem = rem"
    using reorders_short(2) [OF assms, of rem] by (simp add: rem)
  have "remaining_params env runs [] rand = Inr (if rand then shuffle env rem else rem)"
  proof (rule remaining_params_eq)
    show "all_hashable (product_lists (map (\<lambda>p. map list_to_tuple (pvalues p)) ([]::hyper_parameter list)))"
      by (simp add: all_hashable_def)
    show "all_hashable (map (seen_tuple (map name ([]::hyper_parameter list))) runs)"
      using seen_tuple_no_names [of runs] by (simp add: all_hashable_empty_tuples)
    show "rem = set_order env
      (filter (\<lambda>t. t \<notin> seen_tuple (map name ([]::hyper_parameter list)) ` set runs)
         (remdups (product_lists (map (\<lambda>p. map list_to_tuple (pvalues p)) ([]::hyper_parameter list)))))"
      by (rule rem_def)
  qed
  then have "remaining_params env runs [] rand = Inr rem"
    using sh by (cases rand) simp_all
  then show ?thesis by (simp add: rem)
qed

lemma remaining_params_single_no_categorical:
  assumes "reorders env" and "runs \<noteq> []"
  shows "remaining_params_single env runs [] rand = Inr []"
proof -
  define rem where "rem = set_order env
      (filter (\<lambda>t. t \<notin> set (replicate (length runs) []))
         (remdups (product_lists (map pvalues ([]::hyper_parameter list)))))"
  have f: "filter (\<lambda>t. t \<notin> set (replicate (length runs) []))
         (remdups (product_lists (map pvalues ([]::hyper_parameter list)))) = []"
    using assms(2) by (cases runs) simp_all
  have rem: "rem = []"
    unfolding rem_def f using reorders_short(1) [OF assms(1), of "[]"] by simp
  have sh: "shuffle env rem = rem"
    using reorders_short(2) [OF assms(1), of rem] by (simp add: rem)
  have "remaining_params_single env runs [] rand = Inr (if rand then shuffle env rem else rem)"
  proof (rule remaining_params_single_eq)
    show "all_hashable (product_lists (map pvalues ([]::hyper_parameter list)))"
      by (simp add: all_hashable_def)
    show "project_runs runs (map name ([]::hyper_parameter list)) = Inr (replicate (length runs) [])"
      by (simp add: project_runs_no_names)
    show "all_hashable (replicate (length runs) [])"
      by (rule all_hashable_empty_tuples)
    show "rem = set_order env
      (filter (\<lambda>t. t \<notin> set (replicate (length runs) []))
         (remdups (product_lists (map pvalues ([]::hyper_parameter list)))))"
      by (rule rem_def)
  qed
  then have "remaining_params_single env runs [] rand = Inr rem"
    using sh by (cases rand) simp_all
  then show ?thesis by (simp add: rem)
qed

text \<open>
  Claim C10.  When every parameter is constant the universe is the single empty tuple: with
  no observed run, \<open>grid_search_next_runs\<close> with \<open>n = 1\<close> returns exactly one run, whose
  config is that of the constants; with a non-empty history every run projects to the empty
  tuple and the result is the sentinel (\<open>None\<close> for \<open>grid_search_next_run\<close>).
\<close>

theorem C10_constants_only:
  assumes "reorders env" and "validate \<longrightarrow> schema_ok env cfg" and "method cfg = Some ''grid''"
    and "parameters cfg = Some params" and "\<forall>p\<in>set params. ptype p = CONSTANT"
  shows "grid_search_next_runs env [] cfg validate 1 rand =
           Inr [Some \<lparr>config = to_config params\<rparr>] \<and>
         (runs \<noteq> [] \<longrightarrow> grid_search_next_runs env runs cfg validate 1 rand = Inr [None]) \<and>
         (runs \<noteq> [] \<and> schema_ok env cfg \<longrightarrow> grid_search_next_run env runs cfg rand = Inr None)"
proof -
  have chk: "check_params params = None"
    using assms(5) by (simp add: check_params_None)
  have d: "discrete_of params = []" and c: "constant_of params = params"
    using assms(5) by (auto simp: discrete_of_def constant_of_def filter_empty_conv)
  note unf = next_runs_unfold [OF assms(2,3,4) chk]
  have 1: "grid_search_next_runs env [] cfg validate 1 rand =
           Inr [Some \<lparr>config = to_config params\<rparr>]"
    by (simp add: unf d c remaining_params_no_categorical [OF assms(1)] to_config_def dict_of_def)
  have 2: "runs \<noteq> [] \<longrightarrow> grid_search_next_runs env runs cfg validate 1 rand = Inr [None]"
    by (simp add: unf d c remaining_params_no_categorical [OF assms(1)])
  have 3: "runs \<noteq> [] \<and> schema_ok env cfg \<longrightarrow> grid_search_next_run env runs cfg rand = Inr None"
    using assms(4) chk d remaining_params_single_no_categorical [OF assms(1)]
    by (simp add: grid_search_next_run_def discrete_of_def)
  from 1 2 3 show ?thesis by blast
qed

lemma reorders_plain_env: "reorders plain_env"
  by (simp add: reorders_def plain_env_def)

theorem C10_constants_only_witness:
  "grid_search_next_runs plain_env [] (grid_config [constant_param ''c'' (PInt 5)]) False 1 False =
     Inr [Some \<lparr>config = [''c'' \<mapsto> PInt 5]\<rparr>] \<and>
   grid_search_next_runs plain_env [\<lparr>config = [''c'' \<mapsto> PInt 5]\<rparr>]
     (grid_config [constant_param ''c'' (PInt 5)]) False 1 False = Inr [None] \<and>
   grid_search_next_run plain_env [\<lparr>config = [''c'' \<mapsto> PInt 5]\<rparr>]
     (grid_config [constant_param ''c'' (PInt 5)]) False = Inr None"
  using C10_constants_only [OF reorders_plain_env, of False "grid_config [constant_param ''c'' (PInt 5)]"
      "[constant_param ''c'' (PInt 5)]" False "[\<lparr>config = [''c'' \<mapsto> PInt 5]\<rparr>]"]
  by (simp add: grid_config_def constant_param_def plain_env_def to_config_def dict_of_def)

section \<open>Constant parameters in the output\<close>

lemma to_config_constant:
  assumes "distinct (map name ps)" and "p \<in> set ps"
  shows "to_config ps (name p) = Some (pvalue p)"
proof -
  have "distinct (map fst (map (\<lambda>p. (name p, pvalue p)) ps))"
    using assms(1) by (simp add: comp_def)
  then have "to_config ps = map_of (map (\<lambda>p. (name p, pvalue p)) ps)"
    by (simp add: to_config_def dict_of_def map_of_rev_distinct)
  moreover have "(name p, pvalue p) \<in> set (map (\<lambda>p. (name p, pvalue p)) ps)"
    using assms(2) by auto
  ultimately show ?thesis
    using \<open>distinct (map fst (map (\<lambda>p. (name p, pvalue p)) ps))\<close> by simp
qed

text \<open>
  Claim C4.  \<open>grid_search_next_runs\<close> updates every output config with the constants, but
  \<open>grid_search_next_run\<close> builds its run from the categorical names only.  For the space
  \<open>{"a": {"values": [1]}, "c": {"value": 5}}\<close> and no observed run, the first returns a run
  with \<open>c = 5\<close>, the second a run without \<open>c\<close>.
\<close>

theorem C4_next_run_drops_constant:
  "grid_search_next_runs plain_env []
     (grid_config [categorical_param ''a'' [PInt 1], constant_param ''c'' (PInt 5)]) False 1 False =
     Inr [Some \<lparr>config = [''a'' \<mapsto> PInt 1, ''c'' \<mapsto> PInt 5]\<rparr>] \<and>
   grid_search_next_run plain_env []
     (grid_config [categorical_param ''a'' [PInt 1], constant_param ''c'' (PInt 5)]) False =
     Inr (Some \<lparr>config = [''a'' \<mapsto> PInt 1]\<rparr>)"
  by (simp add: ev)

section \<open>The suggestions of \<open>grid_search_next_runs\<close>\<close>

lemma next_runs_suggestions:
  assumes "grid_search_next_runs env runs cfg validate n rand = Inr rs" and "reorders env"
    and "parameters cfg = Some params"
  obtains rem where "remaining_params env runs (discrete_of params) rand = Inr rem"
    and "rs = map (\<lambda>t. Some (suggested_run (map name (discrete_of params))
                              (to_config (constant_of params)) t))
                (take (nat (min n (int (length rem)))) rem) @
              (if n > int (length rem) then [None] else [])"
proof -
  from assms(1) obtain params' where c: "validate \<longrightarrow> schema_ok env cfg" "method cfg = Some ''grid''"
    "parameters cfg = Some params'" "check_params params' = None"
    by (rule next_runs_Inr_cases)
  with assms(3) have c4: "parameters cfg = Some params" "check_params params = None" by simp_all
  show thesis
  proof (cases "remaining_params env runs (discrete_of params) rand")
    case (Inl e)
    then show ?thesis
      using assms(1) by (simp add: next_runs_unfold [OF c(1,2) c4])
  next
    case (Inr rem)
    from next_runs_shape [OF c(1,2) c4 Inr assms(2), of n] assms(1) that [OF Inr]
    show ?thesis by simp
  qed
qed

lemma next_runs_suggestion_elem:
  assumes "grid_search_next_runs env runs cfg validate n rand = Inr rs" and "reorders env"
    and "parameters cfg = Some params" and "Some s \<in> set rs"
  obtains rem t where "remaining_params env runs (discrete_of params) rand = Inr rem"
    and "t \<in> set rem"
    and "s = suggested_run (map name (discrete_of params)) (to_config (constant_of params)) t"
proof -
  from next_runs_suggestions [OF assms(1-3)] obtain rem where
    rem: "remaining_params env runs (discrete_of params) rand = Inr rem"
    and rs: "rs = map (\<lambda>t. Some (suggested_run (map name (discrete_of params))
                              (to_config (constant_of params)) t))
                (take (nat (min n (int (length rem)))) rem) @
              (if n > int (length rem) then [None] else [])"
    by blast
  from assms(4) rs obtain t where "t \<in> set (take (nat (min n (int (length rem)))) rem)"
    and "s = suggested_run (map name (discrete_of params)) (to_config (constant_of params)) t"
    by (auto split: if_splits)
  moreover from this(1) have "t \<in> set rem" by (rule in_set_takeD)
  ultimately show thesis
    using that [OF rem, of t] by blast
qed

lemma names_disjoint:
  assumes "distinct (map name params)"
  shows "distinct (map name (discrete_of params))"
    and "distinct (map name (constant_of params))"
    and "set (map name (discrete_of params)) \<inter> dom (to_config (constant_of params)) = {}"
proof -
  show d: "distinct (map name (discrete_of params))"
    using assms by (simp add: discrete_of_def distinct_map_filter)
  show "distinct (map name (constant_of params))"
    using assms by (simp add: constant_of_def distinct_map_filter)
  have "inj_on name (set params)"
    using assms by (simp add: distinct_map)
  then have "\<And>p q. p \<in> set params \<Longrightarrow> q \<in> set params \<Longrightarrow> name p = name q \<Longrightarrow> p = q"
    by (auto dest: inj_onD)
  then have "\<And>p q. p \<in> set params \<Longrightarrow> q \<in> set params \<Longrightarrow> ptype p = CATEGORICAL \<Longrightarrow>
                ptype q = CONSTANT \<Longrightarrow> name p \<noteq> name q"
    by fastforce
  then show "set (map name (discrete_of params)) \<inter> dom (to_config (constant_of params)) = {}"
    by (auto simp: dom_to_config discrete_of_def constant_of_def)
qed

lemma length_product_lists: "length (product_lists xss) = prod_list (map length xss)"
proof (induction xss)
  case Nil
  then show ?case by simp
next
  case (Cons xs xss)
  have "length (concat (map (\<lambda>x. map ((#) x) (product_lists xss)) xs)) =
        length xs * length (product_lists xss)"
    by (induction xs) simp_all
  then show ?case by (simp add: Cons.IH)
qed

section \<open>Completeness on an empty history\<close>

lemma product_lists_hashable:
  assumes "\<forall>vs\<in>set xss. list_all hashable vs"
  shows "all_hashable (product_lists xss)"
proof -
  have "list_all hashable t" if "t \<in> set (product_lists xss)" for t
  proof -
    from that have l2: "list_all2 (\<lambda>x ys. x \<in> set ys) t xss"
      by (simp add: product_lists_set)
    then have "\<forall>i<length t. hashable (t ! i)"
      using assms by (auto simp: list_all2_conv_all_nth list_all_iff) (meson nth_mem)
    then show ?thesis by (simp add: list_all_length)
  qed
  then show ?thesis by (simp add: all_hashable_def list_all_iff)
qed

lemma remaining_params_empty_history:
  assumes "reorders env"
    and "\<forall>vs\<in>set (canonical_values params). distinct vs \<and> list_all hashable vs"
  obtains rem where "remaining_params env [] (discrete_of params) rand = Inr rem"
    and "mset rem = mset (product_lists (canonical_values params))"
proof -
  let ?P = "product_lists (canonical_values params)"
  have hP: "all_hashable ?P" using assms(2) by (simp add: product_lists_hashable)
  have dP: "distinct ?P" using assms(2) by (simp add: distinct_product_lists)
  define rem0 where "rem0 = set_order env
      (filter (\<lambda>t. t \<notin> seen_tuple (map name (discrete_of params)) ` set []) (remdups ?P))"
  define rem where "rem = (if rand then shuffle env rem0 else rem0)"
  have "remaining_params env [] (discrete_of params) rand = Inr (if rand then shuffle env rem0 else rem0)"
  proof (rule remaining_params_eq)
    show "all_hashable (product_lists (map (\<lambda>p. map list_to_tuple (pvalues p)) (discrete_of params)))"
      using hP by (simp add: canonical_values_def)
    show "all_hashable (map (seen_tuple (map name (discrete_of params))) [])"
      by (simp add: all_hashable_def)
    show "rem0 = set_order env
      (filter (\<lambda>t. t \<notin> seen_tuple (map name (discrete_of params)) ` set [])
         (remdups (product_lists (map (\<lambda>p. map list_to_tuple (pvalues p)) (discrete_of params)))))"
      by (simp add: rem0_def canonical_values_def)
  qed
  then have 1: "remaining_params env [] (discrete_of params) rand = Inr rem"
    by (simp add: rem_def)
  have "mset rem0 = mset ?P"
    using assms(1) dP by (simp add: rem0_def reorders_def distinct_remdups_id)
  then have 2: "mset rem = mset ?P"
    using assms(1) by (simp add: rem_def reorders_def)
  from 1 2 show thesis by (rule that)
qed


text \<open>
  Claim C1 counts \<open>\<Prod>ci\<close> configurations for candidate counts \<open>ci\<close>.  The universe is a set:
  for the single parameter \<open>{"a": {"values": [1, 1]}}\<close> the count is 2, but a request for 2
  runs returns one run followed by the sentinel.
\<close>

theorem C1_duplicate_candidates_counterexample:
  "grid_search_next_runs plain_env [] (grid_config [categorical_param ''a'' [PInt 1, PInt 1]])
     False 2 False = Inr [Some \<lparr>config = [''a'' \<mapsto> PInt 1]\<rparr>, None]"
  by (simp add: ev)

text \<open>
  Claim C1, amended.  Let all parameters be categorical or constant with distinct names, and
  let the candidates of each categorical parameter be pairwise distinct and hashable in
  canonical form.  On a description that passes the checks, with an empty history and
  \<open>n = \<Prod>ci\<close>, \<open>grid_search_next_runs\<close> returns exactly \<open>n\<close> runs and no sentinel; the runs are
  pairwise distinct and their canonical categorical assignments are exactly the tuples of
  the Cartesian product of the canonical candidates, each once.
\<close>

theorem C1_complete_grid:
  assumes "reorders env" and "validate \<longrightarrow> schema_ok env cfg" and "method cfg = Some ''grid''"
    and "parameters cfg = Some params"
    and "\<forall>p\<in>set params. ptype p = CATEGORICAL \<or> ptype p = CONSTANT"
    and "distinct (map name params)"
    and "\<forall>vs\<in>set (canonical_values params). distinct vs \<and> list_all hashable vs"
    and "n = int (prod_list (map (\<lambda>p. length (pvalues p)) (discrete_of params)))"
  shows "\<exists>rs. grid_search_next_runs env [] cfg validate n rand = Inr (map Some rs) \<and>
              int (length rs) = n \<and> distinct rs \<and>
              mset (map (categorical_assignment (map name (discrete_of params))) rs) =
                mset (product_lists (canonical_values params))"
proof -
  let ?names = "map name (discrete_of params)"
  let ?cc = "to_config (constant_of params)"
  let ?P = "product_lists (canonical_values params)"
  have chk: "check_params params = None"
    using assms(5) by (simp add: check_params_None)
  from remaining_params_empty_history [OF assms(1,7), of rand]
  obtain rem where rem: "remaining_params env [] (discrete_of params) rand = Inr rem"
    and m: "mset rem = mset ?P"
    by blast
  have "length rem = length ?P" using m by (metis size_mset)
  also have "\<dots> = prod_list (map (\<lambda>p. length (pvalues p)) (discrete_of params))"
    by (simp add: length_product_lists canonical_values_def comp_def)
  finally have len: "int (length rem) = n" by (simp add: assms(8))
  define rs where "rs = map (suggested_run ?names ?cc) rem"
  have res: "grid_search_next_runs env [] cfg validate n rand = Inr (map Some rs)"
    using next_runs_shape [OF assms(2,3,4) chk rem assms(1), of n] len
    by (simp add: rs_def comp_def)
  have ca: "categorical_assignment ?names (suggested_run ?names ?cc t) = t" if "t \<in> set rem" for t
    using names_disjoint(1,3) [OF assms(6)] remaining_params_elem [OF rem assms(1) that]
    by (intro categorical_assignment_suggested_run) simp_all
  then have proj: "map (categorical_assignment ?names) rs = rem"
    by (simp add: rs_def map_idI)
  have "distinct ?P" using assms(7) by (simp add: distinct_product_lists)
  then have "distinct rem" using m by (metis mset_eq_imp_distinct_iff)
  then have "distinct (map (categorical_assignment ?names) rs)" by (simp add: proj)
  then have d: "distinct rs" by (simp add: distinct_map)
  have "int (length rs) = n" using len by (simp add: rs_def)
  with res d proj m show ?thesis by auto
qed

theorem C1_complete_grid_witness:
  "\<exists>rs. grid_search_next_runs plain_env []
          (grid_config [categorical_param ''v1'' [PInt 1, PInt 2, PInt 3],
                        categorical_param ''v2'' [PInt 4, PInt 5]]) False 6 False = Inr (map Some rs) \<and>
        int (length rs) = 6 \<and> distinct rs \<and>
        mset (map (categorical_assignment (map name (discrete_of
                [categorical_param ''v1'' [PInt 1, PInt 2, PInt 3],
                 categorical_param ''v2'' [PInt 4, PInt 5]]))) rs) =
          mset (product_lists (canonical_values
                [categorical_param ''v1'' [PInt 1, PInt 2, PInt 3],
                 categorical_param ''v2'' [PInt 4, PInt 5]]))"
proof (rule C1_complete_grid [OF reorders_plain_env])
  let ?ps = "[categorical_param ''v1'' [PInt 1, PInt 2, PInt 3],
              categorical_param ''v2'' [PInt 4, PInt 5]]"
  show "False \<longrightarrow> schema_ok plain_env (grid_config ?ps)" by simp
  show "method (grid_config ?ps) = Some ''grid''" by (simp add: grid_config_def)
  show "parameters (grid_config ?ps) = Some ?ps" by (simp add: grid_config_def)
  show "\<forall>p\<in>set ?ps. ptype p = CATEGORICAL \<or> ptype p = CONSTANT"
    by (simp add: categorical_param_def)
  show "distinct (map name ?ps)" by (simp add: categorical_param_def)
  show "\<forall>vs\<in>set (canonical_values ?ps). distinct vs \<and> list_all hashable vs"
    by (simp add: canonical_values_def discrete_of_def categorical_param_def)
  show "6 = int (prod_list (map (\<lambda>p. length (pvalues p)) (discrete_of ?ps)))"
    by (simp add: discrete_of_def categorical_param_def)
qed

section \<open>Observed runs are not suggested again\<close>

lemma seen_tuple_all_present:
  assumes "\<forall>nm\<in>set nms. config r nm \<noteq> None"
  shows "seen_tuple nms r = categorical_assignment nms r"
proof -
  have "filter (\<lambda>nm. config r nm \<noteq> None) nms = nms"
    using assms by (simp add: filter_id_conv)
  then show ?thesis by (simp add: seen_tuple_def categorical_assignment_def)
qed

lemma list_shape_canonical:
  assumes "list_all hashable xs"
  shows "list_to_tuple (PList xs) = list_to_tuple (PTuple xs)"
    and "hashable (list_to_tuple (PList xs))"
proof -
  have "map list_to_tuple xs = xs"
  proof (rule map_idI)
    fix x assume "x \<in> set xs"
    then have "hashable x" using assms by (simp add: list_all_iff)
    then show "list_to_tuple x = x" by (cases x) simp_all
  qed
  then show "list_to_tuple (PList xs) = list_to_tuple (PTuple xs)"
    and "hashable (list_to_tuple (PList xs))"
    using assms by simp_all
qed

text \<open>
  Claim C2 says that a list-shaped and a tuple-shaped value with equal elements have the
  same hashable canonical form.  \<open>list_to_tuple\<close> converts lists only and does not look
  inside a tuple: \<open>[[1]]\<close> becomes \<open>((1,),)\<close>, while \<open>([1],)\<close> stays as it is, with an
  unhashable list inside.
\<close>

theorem C2_tuple_of_list_counterexample:
  "list_to_tuple (PList [PList [PInt 1]]) \<noteq> list_to_tuple (PTuple [PList [PInt 1]]) \<and>
   \<not> hashable (list_to_tuple (PTuple [PList [PInt 1]]))"
  by simp

text \<open>
  Claim C2, amended.  For parameters with distinct names, no run suggested by
  \<open>grid_search_next_runs\<close> has the canonical categorical assignment that an observed run
  projects to; for an observed run holding every categorical name this is its own canonical
  categorical assignment.  A list-shaped and a tuple-shaped value with the same elements have
  the same canonical form, a hashable one, when the elements are hashable (contain no list).
\<close>

theorem C2_no_repeat:
  assumes "grid_search_next_runs env runs cfg validate n rand = Inr rs" and "reorders env"
    and "parameters cfg = Some params" and "distinct (map name params)"
    and "r \<in> set runs" and "Some s \<in> set rs"
  shows "categorical_assignment (map name (discrete_of params)) s \<noteq>
           seen_tuple (map name (discrete_of params)) r \<and>
         ((\<forall>nm\<in>set (map name (discrete_of params)). config r nm \<noteq> None) \<longrightarrow>
            categorical_assignment (map name (discrete_of params)) s \<noteq>
              categorical_assignment (map name (discrete_of params)) r) \<and>
         (list_all hashable xs \<longrightarrow>
            list_to_tuple (PList xs) = list_to_tuple (PTuple xs) \<and>
            hashable (list_to_tuple (PList xs)))"
proof -
  let ?names = "map name (discrete_of params)"
  from next_runs_suggestion_elem [OF assms(1,2,3,6)]
  obtain rem t where rem: "remaining_params env runs (discrete_of params) rand = Inr rem"
    and t: "t \<in> set rem"
    and s: "s = suggested_run ?names (to_config (constant_of params)) t"
    by blast
  have "categorical_assignment ?names s = t"
    unfolding s
    using names_disjoint(1,3) [OF assms(4)] remaining_params_elem [OF rem assms(2) t]
    by (intro categorical_assignment_suggested_run) simp_all
  moreover have "t \<notin> seen_tuple ?names ` set runs"
    using remaining_params_set(1) [OF rem assms(2)] t by simp
  ultimately have 1: "categorical_assignment ?names s \<noteq> seen_tuple ?names r"
    using assms(5) by auto
  then have 2: "(\<forall>nm\<in>set ?names. config r nm \<noteq> None) \<longrightarrow>
            categorical_assignment ?names s \<noteq> categorical_assignment ?names r"
    using seen_tuple_all_present [of ?names r] by auto
  from 1 2 list_shape_canonical [of xs] show ?thesis by blast
qed

theorem C2_no_repeat_witness:
  "categorical_assignment [''a''] \<lparr>config = [''a'' \<mapsto> PList [PInt 3]]\<rparr> \<noteq>
     seen_tuple [''a''] \<lparr>config = [''a'' \<mapsto> PTuple [PInt 1, PInt 2]]\<rparr> \<and>
   categorical_assignment [''a''] \<lparr>config = [''a'' \<mapsto> PList [PInt 3]]\<rparr> \<noteq>
     categorical_assignment [''a''] \<lparr>config = [''a'' \<mapsto> PTuple [PInt 1, PInt 2]]\<rparr> \<and>
   list_to_tuple (PList [PInt 1, PInt 2]) = list_to_tuple (PTuple [PInt 1, PInt 2]) \<and>
   hashable (list_to_tuple (PList [PInt 1, PInt 2]))"
proof -
  let ?ps = "[categorical_param ''a'' [PList [PInt 1, PInt 2], PList [PInt 3]]]"
  let ?r = "\<lparr>config = [''a'' \<mapsto> PTuple [PInt 1, PInt 2]]\<rparr>"
  let ?s = "\<lparr>config = [''a'' \<mapsto> PList [PInt 3]]\<rparr>"
  have 1: "grid_search_next_runs plain_env [?r] (grid_config ?ps) False 2 False = Inr [Some ?s, None]"
    by (simp add: ev)
  have 2: "parameters (grid_config ?ps) = Some ?ps" by (simp add: grid_config_def)
  have 3: "distinct (map name ?ps)" by simp
  have 4: "?r \<in> set [?r]" by simp
  have 5: "Some ?s \<in> set [Some ?s, None]" by simp
  from C2_no_repeat [OF 1 reorders_plain_env 2 3 4 5, of "[PInt 1, PInt 2]"]
  show ?thesis by (simp add: discrete_of_def categorical_param_def)
qed

section \<open>Values come back from the canonical form\<close>

lemma list_to_tuple_hashable: "tuple_free v \<Longrightarrow> hashable (list_to_tuple v)"
  by (induction v) (auto simp: list_all_iff)

lemma suggested_value:
  assumes "grid_search_next_runs env runs cfg validate n rand = Inr rs" and "reorders env"
    and "parameters cfg = Some params" and "distinct (map name params)"
    and "p \<in> set (discrete_of params)" and "Some s \<in> set rs"
  shows "\<exists>v\<in>set (pvalues p). config s (name p) = Some (tuple_to_list (list_to_tuple v))"
proof -
  let ?dps = "discrete_of params"
  let ?names = "map name ?dps"
  from next_runs_suggestion_elem [OF assms(1,2,3,6)]
  obtain rem t where rem: "remaining_params env runs ?dps rand = Inr rem"
    and t: "t \<in> set rem"
    and s: "s = suggested_run ?names (to_config (constant_of params)) t"
    by blast
  from assms(5) obtain i where i: "i < length ?dps" and p: "?dps ! i = p"
    by (auto simp: in_set_conv_nth)
  have len: "length t = length ?names"
    using remaining_params_elem(1) [OF rem assms(2) t] by simp
  have i': "i < length ?names" using i by simp
  have nm: "?names ! i = name p" using i p by simp
  have "?names ! i \<in> set ?names" using i' by (rule nth_mem)
  then have nd: "?names ! i \<notin> dom (to_config (constant_of params))"
    using names_disjoint(3) [OF assms(4)] by blast
  have "config (suggested_run ?names (to_config (constant_of params)) t) (?names ! i) =
        Some (tuple_to_list (t ! i))"
    using names_disjoint(1) [OF assms(4)] len i' nd by (rule config_suggested_run)
  then have c: "config s (name p) = Some (tuple_to_list (t ! i))"
    unfolding s nm .
  have "t \<in> set (product_lists (map (\<lambda>p. map list_to_tuple (pvalues p)) ?dps))"
    using remaining_params_set(1) [OF rem assms(2)] t by simp
  then have "list_all2 (\<lambda>x ys. x \<in> set ys) t (map (\<lambda>p. map list_to_tuple (pvalues p)) ?dps)"
    by (simp add: product_lists_set)
  moreover have "i < length t" using len i' by simp
  ultimately have "t ! i \<in> set (map (\<lambda>p. map list_to_tuple (pvalues p)) ?dps ! i)"
    by (rule list_all2_nthD)
  then have "t ! i \<in> set (map list_to_tuple (pvalues p))"
    using i p by simp
  then obtain v where "v \<in> set (pvalues p)" and "t ! i = list_to_tuple v" by auto
  with c show ?thesis by auto
qed

text \<open>
  Claim C7 says that \<open>tuple_to_list (list_to_tuple v) = v\<close> for every value built from
  scalars and nested sequences.  A tuple is left alone by \<open>list_to_tuple\<close> and turned into a
  list by \<open>tuple_to_list\<close>: the candidate \<open>(2, 3)\<close> comes back as \<open>[2, 3]\<close>.
\<close>

theorem C7_tuple_candidate_counterexample:
  "tuple_to_list (list_to_tuple (PTuple [PInt 2, PInt 3])) = PList [PInt 2, PInt 3] \<and>
   tuple_to_list (list_to_tuple (PTuple [PInt 2, PInt 3])) \<noteq> PTuple [PInt 2, PInt 3]"
  by simp

text \<open>
  Claim C7, amended.  Every run suggested by \<open>grid_search_next_runs\<close> (parameters with
  distinct names) carries at each categorical parameter \<open>tuple_to_list (list_to_tuple v)\<close>
  for one of its candidates \<open>v\<close>; for a value built from scalars and lists only, the canonical
  form is hashable and the conversion back gives the value itself, so that such candidates
  reach the caller in their original shape.
\<close>

theorem C7_roundtrip:
  assumes "grid_search_next_runs env runs cfg validate n rand = Inr rs" and "reorders env"
    and "parameters cfg = Some params" and "distinct (map name params)"
    and "p \<in> set (discrete_of params)" and "Some s \<in> set rs"
  shows "(\<exists>v\<in>set (pvalues p). config s (name p) = Some (tuple_to_list (list_to_tuple v))) \<and>
         (list_all tuple_free (pvalues p) \<longrightarrow> (\<exists>v\<in>set (pvalues p). config s (name p) = Some v)) \<and>
         (tuple_free w \<longrightarrow> tuple_to_list (list_to_tuple w) = w \<and> hashable (list_to_tuple w))"
proof -
  from suggested_value [OF assms]
  obtain v where v: "v \<in> set (pvalues p)"
    and c: "config s (name p) = Some (tuple_to_list (list_to_tuple v))"
    by blast
  have 1: "\<exists>v\<in>set (pvalues p). config s (name p) = Some (tuple_to_list (list_to_tuple v))"
    using v c by blast
  have 2: "list_all tuple_free (pvalues p) \<longrightarrow> (\<exists>v\<in>set (pvalues p). config s (name p) = Some v)"
  proof
    assume "list_all tuple_free (pvalues p)"
    then have "tuple_free v" using v by (simp add: list_all_iff)
    then have "config s (name p) = Some v"
      using c by (simp add: tuple_to_list_list_to_tuple)
    then show "\<exists>v\<in>set (pvalues p). config s (name p) = Some v"
      using v by blast
  qed
  have 3: "tuple_free w \<longrightarrow> tuple_to_list (list_to_tuple w) = w \<and> hashable (list_to_tuple w)"
    by (simp add: tuple_to_list_list_to_tuple list_to_tuple_hashable)
  from 1 2 3 show ?thesis by blast
qed

theorem C7_roundtrip_witness:
  "(\<exists>v\<in>set [PList [PInt 3, PInt 4], PList [PStr ''5'', PStr ''6'']].
      [''v1'' \<mapsto> PList [PInt 3, PInt 4]] ''v1'' = Some (tuple_to_list (list_to_tuple v))) \<and>
   (\<exists>v\<in>set [PList [PInt 3, PInt 4], PList [PStr ''5'', PStr ''6'']].
      [''v1'' \<mapsto> PList [PInt 3, PInt 4]] ''v1'' = Some v) \<and>
   tuple_to_list (list_to_tuple (PList [PStr ''9'', PList [PInt 10, PInt 11]])) =
     PList [PStr ''9'', PList [PInt 10, PInt 11]] \<and>
   hashable (list_to_tuple (PList [PStr ''9'', PList [PInt 10, PInt 11]]))"
proof -
  let ?p = "categorical_param ''v1'' [PList [PInt 3, PInt 4], PList [PStr ''5'', PStr ''6'']]"
  let ?s = "\<lparr>config = [''v1'' \<mapsto> PList [PInt 3, PInt 4]]\<rparr>"
  have 1: "grid_search_next_runs plain_env [] (grid_config [?p]) False 1 False = Inr [Some ?s]"
    by (simp add: ev)
  have 2: "parameters (grid_config [?p]) = Some [?p]" by (simp add: grid_config_def)
  have 3: "distinct (map name [?p])" by simp
  have 4: "?p \<in> set (discrete_of [?p])" by (simp add: discrete_of_def categorical_param_def)
  have 5: "Some ?s \<in> set [Some ?s]" by simp
  from C7_roundtrip [OF 1 reorders_plain_env 2 3 4 5,
      of "PList [PStr ''9'', PList [PInt 10, PInt 11]]"]
  show ?thesis by (simp add: categorical_param_def)
qed

section \<open>Observed runs that lack a categorical parameter\<close>







section \<open>The two implementations compared\<close>











section \<open>Constants in the runs of \<open>grid_search_next_runs\<close>\<close>

text \<open>
  What the list implementation does with constants: every run suggested by
  \<open>grid_search_next_runs\<close> carries the value of every constant parameter.
\<close>

lemma next_runs_constant_passthrough:
  assumes "grid_search_next_runs env runs cfg validate n rand = Inr rs" and "reorders env"
    and "parameters cfg = Some params" and "distinct (map name params)"
    and "p \<in> set params" and "ptype p = CONSTANT" and "Some s \<in> set rs"
  shows "config s (name p) = Some (pvalue p)"
proof -
  from next_runs_suggestion_elem [OF assms(1,2,3,7)]
  obtain rem t where
    s: "s = suggested_run (map name (discrete_of params)) (to_config (constant_of params)) t"
    by blast
  have "p \<in> set (constant_of params)"
    using assms(5,6) by (simp add: constant_of_def)
  with names_disjoint(2) [OF assms(4)]
  have "to_config (constant_of params) (name p) = Some (pvalue p)"
    by (rule to_config_constant)
  then show ?thesis by (simp add: s suggested_run_def)
qed

end
